theory Spec2Isabelle
  imports Main
begin

section \<open>JavaScript values, objects and the heap\<close>

text \<open>
  The store of \<^verbatim>\<open>src/ecs.ts\<close> keeps one plain object (a Component Bag) per entity and
  hands the same object to every reader. Objects therefore live in a heap and are named
  by their address; a value is a primitive (\<^verbatim>\<open>undefined\<close>, \<^verbatim>\<open>null\<close>, a number, a boolean,
  a string) or a reference to an object. Numbers are the
  integers the program uses as ids and test data; a JavaScript number holds them exactly
  below \<open>2 ^ 53\<close>, far beyond the entities a store can hold.
\<close>

datatype jsval = Undefined | Null | Num int | Bool bool | Str string | Ref nat

type_synonym obj = "string \<rightharpoonup> jsval"

type_synonym heap = "obj list"

text \<open>An object literal is a new object at the next free address.\<close>

definition heap_alloc :: "heap \<Rightarrow> obj \<Rightarrow> nat \<times> heap" where
  "heap_alloc hp ob = (length hp, hp @ [ob])"

definition heap_get :: "heap \<Rightarrow> nat \<Rightarrow> obj option" where
  "heap_get hp r = (if r < length hp then Some (hp ! r) else None)"

text \<open>
  Storing \<open>v\<close> as the own property \<open>name\<close> of the object at address \<open>r\<close>. A reference
  always names a live object in JavaScript; for an address that was never allocated the
  heap stays as it is.
\<close>

definition heap_put :: "heap \<Rightarrow> nat \<Rightarrow> string \<Rightarrow> jsval \<Rightarrow> heap" where
  "heap_put hp r name v = (if r < length hp then hp[r := (hp ! r)(name \<mapsto> v)] else hp)"

text \<open>What a call can end with besides a value: a \<^verbatim>\<open>TypeError\<close> of the runtime, or
  whatever a caller-supplied callback throws.\<close>

datatype js_error = TypeError | Thrown jsval

section \<open>Prototypes\<close>

text \<open>
  Every object of the heap is made by an object literal and starts with
  \<^verbatim>\<open>Object.prototype\<close> as its prototype. A prototype is \<^verbatim>\<open>Object.prototype\<close>,
  \<^verbatim>\<open>null\<close> or an object of the heap; \<open>P r\<close> is the prototype of the object at \<open>r\<close>.
  The own properties of the heap's objects are plain data properties, and the one member
  of \<^verbatim>\<open>Object.prototype\<close> with a setter is \<^verbatim>\<open>__proto__\<close>.

  JavaScript keeps prototype chains free of cycles, so a chain visits no object twice and
  a walk along it ends within as many steps as the heap has objects; that number is the
  \<open>fuel\<close> of the two walks below, and the equations for no fuel left are never
  reached on such a heap.
\<close>

datatype proto = ObjectPrototype | NullPrototype | ObjectAt nat

text \<open>The lookup of \<^verbatim>\<open>__proto__\<close> along the chain that starts at a prototype: does it end at
  the setter of \<^verbatim>\<open>Object.prototype\<close>? Not when the chain ends in \<^verbatim>\<open>null\<close>, nor when an
  object on the way has an own property of that name.\<close>

fun finds_setter :: "heap \<Rightarrow> (nat \<Rightarrow> proto) \<Rightarrow> nat \<Rightarrow> proto \<Rightarrow> bool" where
  "finds_setter hp P fuel ObjectPrototype = True"
| "finds_setter hp P fuel NullPrototype = False"
| "finds_setter hp P 0 (ObjectAt p) = False"
| "finds_setter hp P (Suc fuel) (ObjectAt p) =
     (case heap_get hp p of
        None \<Rightarrow> False
      | Some ob \<Rightarrow>
          if ob ''__proto__'' \<noteq> None then False else finds_setter hp P fuel (P p))"

text \<open>Is the object at \<open>r\<close> on the chain that starts at a prototype? This is the test of
  \<^verbatim>\<open>[[SetPrototypeOf]]\<close> for a cycle.\<close>

fun on_chain :: "(nat \<Rightarrow> proto) \<Rightarrow> nat \<Rightarrow> proto \<Rightarrow> nat \<Rightarrow> bool" where
  "on_chain P fuel ObjectPrototype r = False"
| "on_chain P fuel NullPrototype r = False"
| "on_chain P 0 (ObjectAt p) r = True"
| "on_chain P (Suc fuel) (ObjectAt p) r = (p = r \<or> on_chain P fuel (P p) r)"

section \<open>Arrays with holes\<close>

text \<open>
  \<^verbatim>\<open>entities: Entities = []\<close> is a JavaScript array of bag references. Reading past the
  end or at a hole gives \<^verbatim>\<open>undefined\<close> (\<open>None\<close>); writing past the end extends the
  array, leaving holes; \<^verbatim>\<open>Object.keys\<close> lists the indices that hold an element, ascending.
\<close>

type_synonym Entities = "nat option list"

definition array_get :: "Entities \<Rightarrow> nat \<Rightarrow> nat option" where
  "array_get xs i = (if i < length xs then xs ! i else None)"

definition array_set :: "Entities \<Rightarrow> nat \<Rightarrow> nat \<Rightarrow> Entities" where
  "array_set xs i r =
     (if i < length xs then xs[i := Some r]
      else xs @ replicate (i - length xs) None @ [Some r])"

definition object_keys :: "Entities \<Rightarrow> nat list" where
  "object_keys xs = filter (\<lambda>i. xs ! i \<noteq> None) [0..<length xs]"

section \<open>The event table\<close>

text \<open>
  \<^verbatim>\<open>events: Events = {}\<close> is a plain object from message names to arrays of callbacks.
  \<^verbatim>\<open>this.events[message]\<close> finds an own entry first; a name with no own entry is looked
  up in \<^verbatim>\<open>Object.prototype\<close>, whose members are functions (and, for \<^verbatim>\<open>__proto__\<close>, the
  prototype object itself): truthy values that have neither \<^verbatim>\<open>forEach\<close> nor \<^verbatim>\<open>push\<close>.
\<close>

datatype 'a property = Own 'a | Inherited | Missing

definition object_prototype_names :: "string list" where
  "object_prototype_names =
     [''constructor'', ''__defineGetter__'', ''__defineSetter__'', ''hasOwnProperty'',
      ''__lookupGetter__'', ''__lookupSetter__'', ''isPrototypeOf'',
      ''propertyIsEnumerable'', ''toString'', ''valueOf'', ''__proto__'',
      ''toLocaleString'']"

definition events_get :: "(string \<rightharpoonup> 'a) \<Rightarrow> string \<Rightarrow> 'a property" where
  "events_get ev message =
     (case ev message of
        Some hs \<Rightarrow> Own hs
      | None \<Rightarrow> if message \<in> set object_prototype_names then Inherited else Missing)"

text \<open>
  A callback \<^verbatim>\<open>(data:any) => void\<close> runs on the state it closes over, here a state \<open>'w\<close>
  of the caller, and either returns or throws; what it did before throwing stays done.
  Callbacks that call back into the store are outside this model.
\<close>

type_synonym 'w callback = "jsval \<Rightarrow> 'w \<Rightarrow> js_error option \<times> 'w"

section \<open>Selections and views\<close>

text \<open>
  Modelled from the spec: the data of \<^verbatim>\<open>src/flowGroup.ts\<close>, which is not among the
  sources. A FlowGroup before selection is its Scope, \<open>Universe\<close> or \<open>SingleId id\<close>; a
  View holds its scope, the watched component name and the sequence \<open>tracked\<close> of
  Accessor Handles; an Accessor Handle is bound to one entity's bag by reference.
\<close>

datatype flowGroup = Universe | SingleId nat

record handle =
  h_id :: nat
  h_bag :: nat

record view =
  v_scope :: flowGroup
  watched :: "string option"
  tracked :: "handle list"

section \<open>The store: class ECS\<close>

text \<open>
  The fields of \<^verbatim>\<open>class ECS\<close> in declaration order (\<open>priv_emitChanges\<close> is the private
  \<^verbatim>\<open>_emitChanges\<close>), then what the class lives in: the object heap with the prototype
  of each of its objects, the state \<open>env\<close> of the callbacks, and \<open>registry\<close>. Modelled from the spec: \<open>registry\<close> is the Mutation
  Broadcast Registry of section 4.3, all views created so far, oldest first, which
  \<^verbatim>\<open>src/flowGroup.ts\<close> would keep.
\<close>

record 'w ECS =
  debug :: bool
  all :: flowGroup
  lastId :: nat
  events :: "string \<rightharpoonup> 'w callback list"
  entities :: Entities
  priv_emitChanges :: bool
  heap :: heap
  prototypes :: "nat \<Rightarrow> proto"
  env :: 'w
  registry :: "view list"

definition new_ECS :: "'w \<Rightarrow> 'w ECS" where
  "new_ECS w =
     \<lparr> debug = False, all = Universe, lastId = 0, events = Map.empty, entities = [],
       priv_emitChanges = True, heap = [], prototypes = (\<lambda>r. ObjectPrototype), env = w,
       registry = [] \<rparr>"

text \<open>\<^verbatim>\<open>Array.prototype.forEach(value => value(data))\<close>: the callbacks in array order, each
  on the same \<open>data\<close>; a throw leaves the loop at once.\<close>

fun forEach :: "'w callback list \<Rightarrow> jsval \<Rightarrow> 'w \<Rightarrow> js_error option \<times> 'w" where
  "forEach [] data w = (None, w)"
| "forEach (value # rest) data w =
     (case value data w of
        (Some e, w') \<Rightarrow> (Some e, w')
      | (None, w') \<Rightarrow> forEach rest data w')"

text \<open>\<^verbatim>\<open>emit(message, data = undefined)\<close>; the result is the exception that left the call,
  if any.\<close>

definition emit :: "string \<Rightarrow> jsval \<Rightarrow> 'w ECS \<Rightarrow> js_error option \<times> 'w ECS" where
  "emit message data s =
     (case events_get (events s) message of
        Missing \<Rightarrow> (None, s)
      | Inherited \<Rightarrow> (Some TypeError, s)
      | Own hs \<Rightarrow> (case forEach hs data (env s) of (e, w') \<Rightarrow> (e, s\<lparr>env := w'\<rparr>)))"

definition on :: "string \<Rightarrow> 'w callback \<Rightarrow> 'w ECS \<Rightarrow> js_error option \<times> 'w ECS" where
  "on message callback s =
     (case events_get (events s) message of
        Missing \<Rightarrow> (None, s\<lparr>events := (events s)(message \<mapsto> [callback])\<rparr>)
      | Inherited \<Rightarrow> (Some TypeError, s)
      | Own hs \<Rightarrow> (None, s\<lparr>events := (events s)(message \<mapsto> hs @ [callback])\<rparr>))"

definition emitChanges :: "'w ECS \<Rightarrow> bool" where
  "emitChanges s = priv_emitChanges s"

definition set_emitChanges :: "bool \<Rightarrow> 'w ECS \<Rightarrow> js_error option \<times> 'w ECS" where
  "set_emitChanges v s =
     (let s1 = s\<lparr>priv_emitChanges := v\<rparr>
      in if priv_emitChanges s1 then emit ''change'' Undefined s1 else (None, s1))"

text \<open>Modelled from the spec: \<^verbatim>\<open>FlowGroup.is(id)\<close> of the absent \<^verbatim>\<open>src/flowGroup.ts\<close>
  scopes a selection to the one entity \<open>id\<close> and does nothing else.\<close>

definition flowGroup_is :: "flowGroup \<Rightarrow> nat \<Rightarrow> flowGroup" where
  "flowGroup_is g i = SingleId i"

text \<open>
  \<^verbatim>\<open>addEntity(returnFlowGroup = false)\<close>. In \<^verbatim>\<open>this.entities[this.lastId++] = { }\<close> the index
  is the old \<open>lastId\<close>, the object literal is a new empty object. The result is
  \<^verbatim>\<open>undefined\<close> (\<open>None\<close>) or the FlowGroup \<^verbatim>\<open>this.all.is(this.lastId - 1)\<close>.
\<close>

definition addEntity :: "bool \<Rightarrow> 'w ECS \<Rightarrow> (js_error + flowGroup option) \<times> 'w ECS" where
  "addEntity returnFlowGroup s =
     (let (r, hp) = heap_alloc (heap s) Map.empty;
          s1 = s\<lparr>entities := array_set (entities s) (lastId s) r,
                 lastId := lastId s + 1, heap := hp\<rparr>;
          (e, s2) = (if priv_emitChanges s1
                     then emit ''change'' (Num (int (lastId s1 - 1))) s1 else (None, s1))
      in case e of
           Some x \<Rightarrow> (Inl x, s2)
         | None \<Rightarrow>
             if returnFlowGroup then (Inr (Some (flowGroup_is (all s2) (lastId s2 - 1))), s2)
             else (Inr None, s2))"

text \<open>A run of additions, each with its own \<open>returnFlowGroup\<close> argument.\<close>

definition addEntities :: "bool list \<Rightarrow> 'w ECS \<Rightarrow> 'w ECS" where
  "addEntities flags s = foldl (\<lambda>t flag. snd (addEntity flag t)) s flags"

text \<open>Subscribing a list of callbacks to one message, in list order.\<close>

definition subscribe :: "string \<Rightarrow> 'w callback list \<Rightarrow> 'w ECS \<Rightarrow> 'w ECS" where
  "subscribe message cbs s = foldl (\<lambda>t cb. snd (on message cb t)) s cbs"

text \<open>
  The setter of \<^verbatim>\<open>Object.prototype.__proto__\<close>, called on the object at \<open>r\<close>: a value that
  is neither an object nor \<^verbatim>\<open>null\<close> is dropped; an object or \<^verbatim>\<open>null\<close> becomes the
  prototype, unless it is the prototype already, and with a \<^verbatim>\<open>TypeError\<close> when the chain
  would run into a cycle.
\<close>

definition proto_setter :: "nat \<Rightarrow> jsval \<Rightarrow> 'w ECS \<Rightarrow> js_error option \<times> 'w ECS" where
  "proto_setter r v s =
     (case (case v of Ref p \<Rightarrow> Some (ObjectAt p) | Null \<Rightarrow> Some NullPrototype | _ \<Rightarrow> None) of
        None \<Rightarrow> (None, s)
      | Some V \<Rightarrow>
          if prototypes s r = V then (None, s)
          else if on_chain (prototypes s) (length (heap s)) V r then (Some TypeError, s)
          else (None, s\<lparr>prototypes := (prototypes s)(r := V)\<rparr>))"

text \<open>
  The assignment \<^verbatim>\<open>o[name] = v\<close> on the object \<open>o\<close> at \<open>r\<close>. An own property is
  overwritten. Otherwise the name is looked up along the prototype chain: for
  \<^verbatim>\<open>__proto__\<close>, when the lookup ends at \<^verbatim>\<open>Object.prototype\<close>, the inherited setter runs
  and no property is stored; in every other case \<open>o\<close> gets a new own property.
\<close>

definition object_set :: "nat \<Rightarrow> string \<Rightarrow> jsval \<Rightarrow> 'w ECS \<Rightarrow> js_error option \<times> 'w ECS" where
  "object_set r name v s =
     (if name = ''__proto__'' \<and>
         (case heap_get (heap s) r of None \<Rightarrow> True | Some ob \<Rightarrow> ob name = None) \<and>
         finds_setter (heap s) (prototypes s) (length (heap s)) (prototypes s r)
      then proto_setter r v s
      else (None, s\<lparr>heap := heap_put (heap s) r name v\<rparr>))"

text \<open>The caller's \<^verbatim>\<open>ecs.entities[i][name] = v\<close>, as the tests assign components: a
  \<^verbatim>\<open>TypeError\<close> when there is no entity \<open>i\<close>, an assignment to its bag otherwise.\<close>

definition store_set :: "nat \<Rightarrow> string \<Rightarrow> jsval \<Rightarrow> 'w ECS \<Rightarrow> js_error option \<times> 'w ECS" where
  "store_set i name v s =
     (case array_get (entities s) i of
        None \<Rightarrow> (Some TypeError, s)
      | Some r \<Rightarrow> object_set r name v s)"

section \<open>The View Engine\<close>

text \<open>
  Modelled from the spec: the Selector Resolver, the Tracked View Factory and the Mutation
  Broadcast Registry of the absent \<^verbatim>\<open>src/flowGroup.ts\<close>, after sections 3, 4.1, 4.2, 4.3
  and 7 of the spec. The entity store they read is the one above.
\<close>

text \<open>Modelled from the spec: an entity has component \<open>name\<close> when its bag contains a
  property of that name (4.1).\<close>

definition has_component :: "'w ECS \<Rightarrow> nat \<Rightarrow> string \<Rightarrow> bool" where
  "has_component s i name =
     (case array_get (entities s) i of
        None \<Rightarrow> False
      | Some r \<Rightarrow> (case heap_get (heap s) r of None \<Rightarrow> False | Some bag \<Rightarrow> bag name \<noteq> None))"

text \<open>Modelled from the spec: the resolver of 4.1. \<open>Universe\<close> with no name gives all known ids,
  \<open>Universe\<close> with a name the ids whose bag has that property now, \<open>SingleId id\<close> gives
  \<open>[id]\<close> whatever the name.\<close>

fun resolve :: "flowGroup \<Rightarrow> string option \<Rightarrow> 'w ECS \<Rightarrow> nat list" where
  "resolve Universe None s = object_keys (entities s)"
| "resolve Universe (Some name) s =
     filter (\<lambda>i. has_component s i name) (object_keys (entities s))"
| "resolve (SingleId i) name s = [i]"

text \<open>Modelled from the spec: the view factory of 4.2, one handle per resolved id, in the
  same order, bound to the bag the store holds for that id. The spec does not say what a handle for an id
  without a bag is; the factory then yields no view (\<open>None\<close>).\<close>

fun bind_handles :: "Entities \<Rightarrow> nat list \<Rightarrow> handle list option" where
  "bind_handles es [] = Some []"
| "bind_handles es (i # ids) =
     (case array_get es i of
        None \<Rightarrow> None
      | Some r \<Rightarrow> map_option (\<lambda>hs. \<lparr>h_id = i, h_bag = r\<rparr> # hs) (bind_handles es ids))"

text \<open>Modelled from the spec: \<^verbatim>\<open>FlowGroup.get(name?)\<close>, the selection call. The new view is
  registered before it is returned.\<close>

definition flowGroup_get ::
  "flowGroup \<Rightarrow> string option \<Rightarrow> 'w ECS \<Rightarrow> view option \<times> 'w ECS" where
  "flowGroup_get g name s =
     (case bind_handles (entities s) (resolve g name s) of
        None \<Rightarrow> (None, s)
      | Some hs \<Rightarrow>
          (let v = \<lparr>v_scope = g, watched = name, tracked = hs\<rparr>
           in (Some v, s\<lparr>registry := registry s @ [v]\<rparr>)))"

text \<open>Modelled from the spec: the resolved id set of a view, the ids of its handles.\<close>

definition view_ids :: "view \<Rightarrow> nat list" where
  "view_ids v = map h_id (tracked v)"

text \<open>Modelled from the spec: reading a property through a handle returns the bag's
  current value (3), \<open>None\<close> when the bag has no such property.\<close>

definition handle_read :: "handle \<Rightarrow> string \<Rightarrow> 'w ECS \<Rightarrow> jsval option" where
  "handle_read h name s =
     (case heap_get (heap s) (h_bag h) of None \<Rightarrow> None | Some bag \<Rightarrow> bag name)"

text \<open>Modelled from the spec: by 4.3 and 7, one \<^verbatim>\<open>changeResolved\<close> per qualifying view, in
  registration order, through the store's \<open>emit\<close>; an exception of a subscriber is not
  caught.\<close>

fun changeResolved_all :: "view list \<Rightarrow> 'w ECS \<Rightarrow> js_error option \<times> 'w ECS" where
  "changeResolved_all [] s = (None, s)"
| "changeResolved_all (v # vs) s =
     (case emit ''changeResolved'' Undefined s of
        (Some e, s') \<Rightarrow> (Some e, s')
      | (None, s') \<Rightarrow> changeResolved_all vs s')"

text \<open>Modelled from the spec: the qualifying views of a write to entity \<open>i\<close> are the
  registered views whose resolved ids contain \<open>i\<close> (4.3).\<close>

definition qualifying :: "'w ECS \<Rightarrow> nat \<Rightarrow> view list" where
  "qualifying s i = filter (\<lambda>v. i \<in> set (view_ids v)) (registry s)"

text \<open>Modelled from the spec: by 3 and 4.3 a write through a handle is applied to the shared
  bag; with the debug flag on it is followed by one \<^verbatim>\<open>changeDetected\<close> and then one
  \<^verbatim>\<open>changeResolved\<close> for every qualifying view. The spec leaves the place of the write
  among the emissions open; here it comes first.\<close>

definition handle_write ::
  "handle \<Rightarrow> string \<Rightarrow> jsval \<Rightarrow> 'w ECS \<Rightarrow> js_error option \<times> 'w ECS" where
  "handle_write h name v s =
     (let s1 = s\<lparr>heap := heap_put (heap s) (h_bag h) name v\<rparr>
      in if debug s1
         then (case emit ''changeDetected'' Undefined s1 of
                 (Some e, s2) \<Rightarrow> (Some e, s2)
               | (None, s2) \<Rightarrow> changeResolved_all (qualifying s2 (h_id h)) s2)
         else (None, s1))"

text \<open>A caller's sequence of writes; an exception ends it.\<close>

fun handle_writes ::
  "(handle \<times> string \<times> jsval) list \<Rightarrow> 'w ECS \<Rightarrow> js_error option \<times> 'w ECS" where
  "handle_writes [] s = (None, s)"
| "handle_writes ((h, name, v) # ws) s =
     (case handle_write h name v s of
        (Some e, s') \<Rightarrow> (Some e, s')
      | (None, s') \<Rightarrow> handle_writes ws s')"

section \<open>Programs over the store\<close>

text \<open>
  What a caller can do with a store, one constructor per operation; \<open>SetDebug\<close> assigns
  the public field \<^verbatim>\<open>debug\<close>, \<open>Write i j\<close> writes through handle \<open>j\<close> of the \<open>i\<close>-th
  view created, \<open>NewObject\<close> evaluates an object literal with computed keys, such as
  \<^verbatim>\<open>{["x"]: 3}\<close>, whose keys all become own properties. A call that throws leaves the
  state it reached, and the caller goes on.
\<close>

datatype 'w cmd =
    AddEntity bool
  | On string "'w callback"
  | Emit string jsval
  | SetEmitChanges bool
  | SetDebug bool
  | Get flowGroup "string option"
  | Write nat nat string jsval
  | StoreSet nat string jsval
  | NewObject obj

fun exec :: "'w cmd \<Rightarrow> 'w ECS \<Rightarrow> 'w ECS" where
  "exec (AddEntity flag) s = snd (addEntity flag s)"
| "exec (On message cb) s = snd (on message cb s)"
| "exec (Emit message data) s = snd (emit message data s)"
| "exec (SetEmitChanges b) s = snd (set_emitChanges b s)"
| "exec (SetDebug b) s = s\<lparr>debug := b\<rparr>"
| "exec (Get g name) s = snd (flowGroup_get g name s)"
| "exec (Write i j name v) s =
     (if i < length (registry s) \<and> j < length (tracked (registry s ! i))
      then snd (handle_write (tracked (registry s ! i) ! j) name v s) else s)"
| "exec (StoreSet i name v) s = snd (store_set i name v s)"
| "exec (NewObject ob) s = s\<lparr>heap := snd (heap_alloc (heap s) ob)\<rparr>"

definition run :: "'w cmd list \<Rightarrow> 'w ECS \<Rightarrow> 'w ECS" where
  "run cs s = foldl (\<lambda>t c. exec c t) s cs"

text \<open>The state of a store that keeps its views bound: no entity lies at or beyond
  \<open>lastId\<close>, every entity's bag is allocated, and every handle of a registered view
  holds the bag the store holds for its id.\<close>

definition bound :: "'w ECS \<Rightarrow> bool" where
  "bound s \<longleftrightarrow>
     length (entities s) \<le> lastId s \<and>
     (\<forall>i a. array_get (entities s) i = Some a \<longrightarrow> a < length (heap s)) \<and>
     (\<forall>v \<in> set (registry s). \<forall>h \<in> set (tracked v).
        array_get (entities s) (h_id h) = Some (h_bag h))"

section \<open>Subscribers, and the stores of the examples\<close>

text \<open>The callbacks subscribed to a message: the array \<open>on\<close> has stored for it, none when
  there is no entry.\<close>

definition subscribers :: "'w ECS \<Rightarrow> string \<Rightarrow> 'w callback list" where
  "subscribers s message = (case events s message of None \<Rightarrow> [] | Some hs \<Rightarrow> hs)"

text \<open>A callback that appends its tag and the payload it was called with to a log, as the
  tests' \<^verbatim>\<open>() => { eventState++ }\<close> counts calls; and one that throws.\<close>

definition logger :: "nat \<Rightarrow> (nat \<times> jsval) list callback" where
  "logger k data w = (None, w @ [(k, data)])"

definition thrower :: "jsval \<Rightarrow> 'w callback" where
  "thrower x data w = (Some (Thrown x), w)"

text \<open>The test \<^verbatim>\<open>should sync the data between queries\<close>, with a second view scoped by
  identity: one entity with a component, selected twice.\<close>

definition sync_example :: "unit cmd list" where
  "sync_example =
     [AddEntity False, StoreSet 0 ''testComponent'' (Num 1),
      Get Universe (Some ''testComponent''), Get (SingleId 0) None]"

text \<open>One dispatch, with no payload, of a list of callbacks on the callbacks' state; and the
  number of entries a \<open>logger k\<close> has left in a log.\<close>

definition dispatch :: "'w callback list \<Rightarrow> 'w \<Rightarrow> 'w" where
  "dispatch hs w = snd (forEach hs Undefined w)"

definition count_tag :: "nat \<Rightarrow> (nat \<times> jsval) list \<Rightarrow> nat" where
  "count_tag k w = length (filter (\<lambda>e. fst e = k) w)"

text \<open>The spec's scenario for filtered selection: five entities, two of them tagged.\<close>

definition tag_example :: "unit ECS" where
  "tag_example =
     run [AddEntity False, AddEntity False, AddEntity False, AddEntity False, AddEntity False,
          StoreSet 1 ''tag'' (Bool True), StoreSet 3 ''tag'' (Bool True)] (new_ECS ())"

text \<open>The spec's scenario for identity scoping: entity 0 with no components, a view scoped
  to it with watched name \<^verbatim>\<open>pos\<close>, then the object literal \<^verbatim>\<open>{x: 3}\<close>.\<close>

definition pos_example :: "unit ECS" where
  "pos_example =
     run [AddEntity True, Get (SingleId 0) (Some ''pos''), NewObject [''x'' \<mapsto> Num 3]]
       (new_ECS ())"

text \<open>An entity with no components and a view scoped to it whose watched name is
  \<^verbatim>\<open>__proto__\<close>.\<close>

definition proto_key_example :: "unit ECS" where
  "proto_key_example =
     run [AddEntity True, Get (SingleId 0) (Some ''__proto__'')] (new_ECS ())"

text \<open>The tests \<^verbatim>\<open>should not emit debugging events when debug is false\<close> and
  \<^verbatim>\<open>eventCountTest\<close>: a view on one entity and recording subscribers of both
  instrumentation events; in the second the debug flag is on and the entity is selected
  three times.\<close>

definition quiet_example :: "(nat \<times> jsval) list ECS" where
  "quiet_example =
     run [AddEntity True, Get (SingleId 0) (Some ''testComponent''),
          StoreSet 0 ''testComponent'' (Bool True), Emit ''change'' Undefined,
          On ''changeDetected'' (logger 0), On ''changeResolved'' (logger 1)] (new_ECS [])"

definition debug_example :: "(nat \<times> jsval) list ECS" where
  "debug_example =
     run [AddEntity False, SetDebug True, StoreSet 0 ''testComponent'' (Num 7),
          Get Universe (Some ''testComponent''), Get Universe (Some ''testComponent''),
          Get Universe (Some ''testComponent''),
          On ''changeDetected'' (logger 0), On ''changeResolved'' (logger 1)] (new_ECS [])"

text \<open>The store of \<^verbatim>\<open>eventCountTest\<close> with one more subscriber of \<^verbatim>\<open>changeResolved\<close>, which
  throws.\<close>

definition throwing_example :: "(nat \<times> jsval) list ECS" where
  "throwing_example =
     run [AddEntity False, SetDebug True, StoreSet 0 ''testComponent'' (Num 7),
          Get Universe (Some ''testComponent''), Get Universe (Some ''testComponent''),
          Get Universe (Some ''testComponent''),
          On ''changeDetected'' (logger 0), On ''changeResolved'' (logger 1),
          On ''changeResolved'' (thrower (Str ''stop''))] (new_ECS [])"

lemmas eval_defs =
  new_ECS_def subscribe_def on_def emit_def events_get_def object_prototype_names_def
  logger_def thrower_def

section \<open>The event bus\<close>

lemma emit_fields:
  "debug (snd (emit m d s)) = debug s"
  "all (snd (emit m d s)) = all s"
  "lastId (snd (emit m d s)) = lastId s"
  "events (snd (emit m d s)) = events s"
  "entities (snd (emit m d s)) = entities s"
  "priv_emitChanges (snd (emit m d s)) = priv_emitChanges s"
  "heap (snd (emit m d s)) = heap s"
  "registry (snd (emit m d s)) = registry s"
  by (simp_all add: emit_def split: property.splits prod.splits)

lemma emit_subscribers:
  "events_get (events s) m \<noteq> Inherited \<Longrightarrow>
   emit m d s = (fst (forEach (subscribers s m) d (env s)),
                 s\<lparr>env := snd (forEach (subscribers s m) d (env s))\<rparr>)"
  by (auto simp: emit_def events_get_def subscribers_def
      split: option.splits if_splits prod.splits)

lemma change_not_inherited: "events_get ev ''change'' \<noteq> Inherited"
  by (simp add: events_get_def object_prototype_names_def split: option.splits)

lemma forEach_append:
  "forEach (xs @ ys) d w =
     (case forEach xs d w of (Some e, w') \<Rightarrow> (Some e, w') | (None, w') \<Rightarrow> forEach ys d w')"
  by (induction xs arbitrary: w) (auto split: prod.splits option.splits)

lemma forEach_returns:
  "fst (forEach hs d w) = None \<Longrightarrow>
   forEach hs d w = (None, foldl (\<lambda>w h. snd (h d w)) w hs)"
proof (induction hs arbitrary: w)
  case Nil
  then show ?case by simp
next
  case (Cons h hs)
  obtain e w' where hw: "h d w = (e, w')"
    by (cases "h d w")
  show ?case
  proof (cases e)
    case None
    then have "fst (forEach hs d w') = None"
      using Cons.prems hw by simp
    from Cons.IH[OF this] show ?thesis
      using hw None by simp
  next
    case (Some x)
    then show ?thesis
      using Cons.prems hw by simp
  qed
qed

lemma subscribe_Cons: "subscribe m (cb # cbs) s = subscribe m cbs (snd (on m cb s))"
  by (simp add: subscribe_def)

lemma subscribe_effect:
  "events_get (events s) m \<noteq> Inherited \<Longrightarrow>
   subscribers (subscribe m cbs s) m = subscribers s m @ cbs \<and>
   env (subscribe m cbs s) = env s \<and>
   events_get (events (subscribe m cbs s)) m \<noteq> Inherited"
proof (induction cbs arbitrary: s)
  case Nil
  then show ?case by (simp add: subscribe_def)
next
  case (Cons cb cbs)
  let ?t = "snd (on m cb s)"
  have t: "events_get (events ?t) m \<noteq> Inherited" "subscribers ?t m = subscribers s m @ [cb]"
    "env ?t = env s"
    using Cons.prems
    by (auto simp: on_def events_get_def subscribers_def split: option.splits if_splits)
  from Cons.IH[OF t(1)] t(2,3) show ?case
    by (simp add: subscribe_Cons)
qed

section \<open>Adding entities\<close>

lemma addEntity_snd:
  "snd (addEntity r s) =
     (let s1 = s\<lparr>entities := array_set (entities s) (lastId s) (length (heap s)),
                 lastId := lastId s + 1, heap := heap s @ [Map.empty]\<rparr>
      in if priv_emitChanges s then snd (emit ''change'' (Num (int (lastId s))) s1) else s1)"
  by (simp add: addEntity_def heap_alloc_def Let_def case_prod_beta split: option.splits)

lemma addEntity_fst:
  "fst (addEntity r s) =
     (let s1 = s\<lparr>entities := array_set (entities s) (lastId s) (length (heap s)),
                 lastId := lastId s + 1, heap := heap s @ [Map.empty]\<rparr>
      in case (if priv_emitChanges s
               then fst (emit ''change'' (Num (int (lastId s))) s1) else None) of
           Some e \<Rightarrow> Inl e
         | None \<Rightarrow> Inr (if r then Some (SingleId (lastId s)) else None))"
  by (simp add: addEntity_def heap_alloc_def Let_def case_prod_beta flowGroup_is_def
      emit_fields split: option.splits)

lemma addEntity_fields:
  "debug (snd (addEntity r s)) = debug s"
  "all (snd (addEntity r s)) = all s"
  "lastId (snd (addEntity r s)) = lastId s + 1"
  "events (snd (addEntity r s)) = events s"
  "entities (snd (addEntity r s)) = array_set (entities s) (lastId s) (length (heap s))"
  "priv_emitChanges (snd (addEntity r s)) = priv_emitChanges s"
  "heap (snd (addEntity r s)) = heap s @ [Map.empty]"
  "registry (snd (addEntity r s)) = registry s"
  by (simp_all add: addEntity_snd Let_def emit_fields)

lemma array_get_set:
  "array_get (array_set xs i r) j = (if j = i then Some r else array_get xs j)"
  by (auto simp: array_get_def array_set_def nth_append)

lemma object_keys_full:
  "None \<notin> set xs \<Longrightarrow> object_keys xs = [0..<length xs]"
proof -
  assume a: "None \<notin> set xs"
  have "\<And>i. i < length xs \<Longrightarrow> xs ! i \<noteq> None"
    using a nth_mem by metis
  then show ?thesis by (simp add: object_keys_def filter_id_conv)
qed

lemma addEntities_dense:
  "length (entities s) = lastId s \<Longrightarrow> None \<notin> set (entities s) \<Longrightarrow>
   length (entities (addEntities flags s)) = lastId s + length flags \<and>
   lastId (addEntities flags s) = lastId s + length flags \<and>
   None \<notin> set (entities (addEntities flags s))"
proof (induction flags arbitrary: s)
  case Nil
  then show ?case by (simp add: addEntities_def)
next
  case (Cons f fs)
  let ?t = "snd (addEntity f s)"
  have "length (entities ?t) = lastId ?t" "None \<notin> set (entities ?t)"
    using Cons.prems by (simp_all add: addEntity_fields array_set_def)
  from Cons.IH[OF this] show ?case
    by (simp add: addEntities_def addEntity_fields)
qed

text \<open>
  Claim C9. Any number of entity additions on a store that holds no entity yet (a fresh
  store, whatever was subscribed or toggled on it) leaves exactly the ids \<open>0, \<dots>, n-1\<close>,
  in ascending order and without repetition, where \<open>n\<close> is the number of additions, and
  the next id to be given out is \<open>n\<close>.
\<close>

theorem addEntities_ids:
  "entities s = [] \<Longrightarrow> lastId s = 0 \<Longrightarrow>
   object_keys (entities (addEntities flags s)) = [0..<length flags] \<and>
   lastId (addEntities flags s) = length flags"
  using addEntities_dense[of s flags] by (simp add: object_keys_full)

theorem addEntities_ids_witness:
  "entities (new_ECS ()) = [] \<and> lastId (new_ECS ()) = 0 \<and>
   object_keys (entities (addEntities [False, True, False] (new_ECS ()))) = [0, 1, 2] \<and>
   lastId (addEntities [False, True, False] (new_ECS ())) = 3"
proof -
  have a: "entities (new_ECS ()) = []" and b: "lastId (new_ECS ()) = 0"
    by (simp_all add: new_ECS_def)
  have "[0..<length [False, True, False]] = [0, 1, 2]"
    by (simp add: upt_rec)
  with a b addEntities_ids [OF a b, of "[False, True, False]"] show ?thesis
    by simp
qed

text \<open>
  Claim C10. A call of \<open>addEntity\<close> on a store whose \<open>lastId\<close> is \<open>n\<close> leaves the bag
  reference at every index other than \<open>n\<close> (so at \<open>0, \<dots>, n-1\<close>) as it was and every
  object of the heap with its contents, allocates exactly one object, which is empty, new,
  and stored at index \<open>n\<close>, sets \<open>lastId\<close> to \<open>n + 1\<close>, and changes none of \<open>debug\<close>,
  \<open>events\<close>, \<open>emitChanges\<close>, \<open>all\<close> (nor the registry of views). This holds whether or
  not a subscriber of \<^verbatim>\<open>change\<close> throws.
\<close>

theorem addEntity_frame:
  "(\<forall>i. i \<noteq> lastId s \<longrightarrow>
        array_get (entities (snd (addEntity r s))) i = array_get (entities s) i) \<and>
   (\<forall>a. a < length (heap s) \<longrightarrow>
        heap_get (heap (snd (addEntity r s))) a = heap_get (heap s) a) \<and>
   (\<exists>b. array_get (entities (snd (addEntity r s))) (lastId s) = Some b \<and>
        heap_get (heap s) b = None \<and>
        heap_get (heap (snd (addEntity r s))) b = Some Map.empty) \<and>
   length (heap (snd (addEntity r s))) = length (heap s) + 1 \<and>
   lastId (snd (addEntity r s)) = lastId s + 1 \<and>
   debug (snd (addEntity r s)) = debug s \<and>
   events (snd (addEntity r s)) = events s \<and>
   emitChanges (snd (addEntity r s)) = emitChanges s \<and>
   all (snd (addEntity r s)) = all s \<and>
   registry (snd (addEntity r s)) = registry s"
  by (simp add: addEntity_fields array_get_set heap_get_def emitChanges_def nth_append)

theorem addEntity_frame_witness:
  "0 \<noteq> lastId (addEntities [False] (new_ECS ())) \<and>
   array_get (entities (snd (addEntity True (addEntities [False] (new_ECS ()))))) 0
     = array_get (entities (addEntities [False] (new_ECS ()))) 0 \<and>
   0 < length (heap (addEntities [False] (new_ECS ()))) \<and>
   heap_get (heap (snd (addEntity True (addEntities [False] (new_ECS ()))))) 0
     = heap_get (heap (addEntities [False] (new_ECS ()))) 0 \<and>
   array_get (entities (snd (addEntity True (addEntities [False] (new_ECS ()))))) 1 = Some 1 \<and>
   lastId (snd (addEntity True (addEntities [False] (new_ECS ())))) = 2"
  using addEntity_frame [of "addEntities [False] (new_ECS ())" True]
  by (simp add: addEntities_def addEntity_fields new_ECS_def array_get_def heap_get_def
      array_set_def emitChanges_def)

text \<open>
  Claim C6. The emit-changes toggle of a new store is on. While it is on, an entity
  addition runs the subscribers of \<^verbatim>\<open>change\<close> once, in order, on the id of the entity it
  has just stored; while it is off, an addition runs no subscriber and returns normally;
  and setting the toggle to on from off runs the subscribers of \<^verbatim>\<open>change\<close> once on
  \<^verbatim>\<open>undefined\<close>, that is, with no payload.
\<close>

theorem change_events:
  "emitChanges (new_ECS w) \<and>
   (emitChanges s \<longrightarrow>
      env (snd (addEntity r s)) =
        snd (forEach (subscribers s ''change'') (Num (int (lastId s))) (env s)) \<and>
      lastId s \<in> set (object_keys (entities (snd (addEntity r s))))) \<and>
   (\<not> emitChanges s \<longrightarrow>
      env (snd (addEntity r s)) = env s \<and>
      fst (addEntity r s) = Inr (if r then Some (SingleId (lastId s)) else None)) \<and>
   (\<not> emitChanges s \<longrightarrow>
      emitChanges (snd (set_emitChanges True s)) \<and>
      env (snd (set_emitChanges True s)) =
        snd (forEach (subscribers s ''change'') Undefined (env s)))"
  by (simp add: emitChanges_def new_ECS_def addEntity_snd addEntity_fst set_emitChanges_def
      emit_subscribers change_not_inherited subscribers_def object_keys_def array_set_def
      nth_append)

theorem change_events_witness:
  "emitChanges (subscribe ''change'' [logger 0] (new_ECS [])) \<and>
   env (snd (addEntity False (subscribe ''change'' [logger 0] (new_ECS [])))) = [(0, Num 0)] \<and>
   \<not> emitChanges (snd (set_emitChanges False (subscribe ''change'' [logger 0] (new_ECS [])))) \<and>
   env (snd (addEntity False
          (snd (set_emitChanges False (subscribe ''change'' [logger 0] (new_ECS [])))))) = [] \<and>
   env (snd (set_emitChanges True
          (snd (set_emitChanges False (subscribe ''change'' [logger 0] (new_ECS []))))))
     = [(0, Undefined)]"
  using change_events [of "[]" "subscribe ''change'' [logger 0] (new_ECS [])" False]
    change_events [of "[]"
      "snd (set_emitChanges False (subscribe ''change'' [logger 0] (new_ECS [])))" False]
  by (simp add: eval_defs emitChanges_def set_emitChanges_def subscribers_def)

text \<open>
  Claim C7. In a dispatch of \<open>emit\<close>, when the callbacks subscribed before a callback \<open>h\<close>
  return and \<open>h\<close> throws \<open>e\<close>, the call of \<open>emit\<close> ends with \<open>e\<close>, uncaught, and the
  state of the callbacks is the one \<open>h\<close> left: none of the callbacks subscribed after
  \<open>h\<close> has run.
\<close>

theorem emit_callback_throws:
  "events s message = Some (pre @ h # post) \<Longrightarrow>
   forEach pre d (env s) = (None, w1) \<Longrightarrow>
   h d w1 = (Some e, w2) \<Longrightarrow>
   emit message d s = (Some e, s\<lparr>env := w2\<rparr>)"
  by (simp add: emit_def events_get_def forEach_append)

theorem emit_callback_throws_witness:
  "events (subscribe ''tick'' [logger 0, thrower (Str ''boom''), logger 1] (new_ECS [])) ''tick''
     = Some ([logger 0] @ thrower (Str ''boom'') # [logger 1]) \<and>
   forEach [logger 0] (Num 7)
     (env (subscribe ''tick'' [logger 0, thrower (Str ''boom''), logger 1] (new_ECS [])))
     = (None, [(0, Num 7)]) \<and>
   thrower (Str ''boom'') (Num 7) [(0, Num 7)] = (Some (Thrown (Str ''boom'')), [(0, Num 7)]) \<and>
   emit ''tick'' (Num 7) (subscribe ''tick'' [logger 0, thrower (Str ''boom''), logger 1] (new_ECS []))
     = (Some (Thrown (Str ''boom'')),
        (subscribe ''tick'' [logger 0, thrower (Str ''boom''), logger 1] (new_ECS []))
          \<lparr>env := [(0, Num 7)]\<rparr>)"
  using emit_callback_throws [of
      "subscribe ''tick'' [logger 0, thrower (Str ''boom''), logger 1] (new_ECS [])"
      "''tick''" "[logger 0]" "thrower (Str ''boom'')" "[logger 1]" "Num 7" "[(0, Num 7)]"
      "Thrown (Str ''boom'')" "[(0, Num 7)]"]
  by (simp add: eval_defs)

text \<open>
  Claim C8, as stated, fails: \<open>emit\<close> has no handler for exceptions, so what a callback
  throws reaches the caller of \<open>emit\<close> and the callbacks after it are not called; and for
  a message named like a member of \<^verbatim>\<open>Object.prototype\<close> the lookup in \<open>events\<close> finds
  that member, and \<open>emit\<close> ends with a \<^verbatim>\<open>TypeError\<close>.
\<close>

theorem emit_error_propagation_counterexample:
  "fst (emit ''damage'' (Num 1)
          (subscribe ''damage'' [thrower (Str ''oops''), logger 5] (new_ECS [])))
     = Some (Thrown (Str ''oops'')) \<and>
   env (snd (emit ''damage'' (Num 1)
          (subscribe ''damage'' [thrower (Str ''oops''), logger 5] (new_ECS [])))) = [] \<and>
   fst (emit ''toString'' Undefined (new_ECS ())) = Some TypeError"
  by (simp add: eval_defs)

text \<open>
  Claim C8, amended. For a message whose lookup in \<open>events\<close> does not end in
  \<^verbatim>\<open>Object.prototype\<close>, after the callbacks \<open>cbs\<close> have been subscribed with \<open>on\<close>: when
  no callback raises in the dispatch, \<open>emit\<close> returns normally, with no value, having
  run the callbacks subscribed before and then \<open>cbs\<close>, each once, in the order of
  subscription, each on the same payload; and when a callback raises, those before it
  having returned, its exception propagates to the caller of \<open>emit\<close> and the callbacks
  after it are not run.
\<close>

theorem emit_dispatch:
  "events_get (events s) message \<noteq> Inherited \<Longrightarrow>
   (fst (forEach (subscribers s message @ cbs) d (env s)) = None \<longrightarrow>
      emit message d (subscribe message cbs s) =
        (None, (subscribe message cbs s)
                 \<lparr>env := foldl (\<lambda>w h. snd (h d w)) (env s) (subscribers s message @ cbs)\<rparr>)) \<and>
   (subscribers s message @ cbs = pre @ h # post \<longrightarrow>
    forEach pre d (env s) = (None, w1) \<longrightarrow> h d w1 = (Some e, w2) \<longrightarrow>
      emit message d (subscribe message cbs s) =
        (Some e, (subscribe message cbs s)\<lparr>env := w2\<rparr>))"
proof -
  assume a: "events_get (events s) message \<noteq> Inherited"
  let ?t = "subscribe message cbs s"
  from subscribe_effect[OF a, of cbs]
  have t: "subscribers ?t message = subscribers s message @ cbs" "env ?t = env s"
    "events_get (events ?t) message \<noteq> Inherited" by simp_all
  have em: "emit message d ?t =
      (fst (forEach (subscribers s message @ cbs) d (env s)),
       ?t\<lparr>env := snd (forEach (subscribers s message @ cbs) d (env s))\<rparr>)"
    using emit_subscribers[OF t(3), of d] t(1,2) by simp
  have 1: "emit message d ?t =
        (None, ?t\<lparr>env := foldl (\<lambda>w h. snd (h d w)) (env s) (subscribers s message @ cbs)\<rparr>)"
    if "fst (forEach (subscribers s message @ cbs) d (env s)) = None"
    using forEach_returns[OF that] em by simp
  have 2: "emit message d ?t = (Some e, ?t\<lparr>env := w2\<rparr>)"
    if "subscribers s message @ cbs = pre @ h # post" "forEach pre d (env s) = (None, w1)"
      "h d w1 = (Some e, w2)"
    using that em by (simp add: forEach_append)
  show ?thesis
    using 1 2 by blast
qed

theorem emit_dispatch_witness:
  "events_get (events (new_ECS ([]::(nat \<times> jsval) list))) ''tock'' \<noteq> Inherited \<and>
   subscribers (new_ECS ([]::(nat \<times> jsval) list)) ''tock'' = [] \<and>
   fst (forEach [logger 0, logger 1, logger 2] (Num 7) []) = None \<and>
   emit ''tock'' (Num 7) (subscribe ''tock'' [logger 0, logger 1, logger 2] (new_ECS [])) =
     (None, (subscribe ''tock'' [logger 0, logger 1, logger 2] (new_ECS []))
              \<lparr>env := [(0, Num 7), (1, Num 7), (2, Num 7)]\<rparr>) \<and>
   [logger 3, thrower (Str ''bang''), logger 4] = [logger 3] @ thrower (Str ''bang'') # [logger 4] \<and>
   forEach [logger 3] (Num 7) [] = (None, [(3, Num 7)]) \<and>
   thrower (Str ''bang'') (Num 7) [(3::nat, Num 7)] =
     (Some (Thrown (Str ''bang'')), [(3::nat, Num 7)]) \<and>
   emit ''tock'' (Num 7)
       (subscribe ''tock'' [logger 3, thrower (Str ''bang''), logger 4] (new_ECS [])) =
     (Some (Thrown (Str ''bang'')),
      (subscribe ''tock'' [logger 3, thrower (Str ''bang''), logger 4] (new_ECS []))
        \<lparr>env := [(3, Num 7)]\<rparr>)"
proof -
  have a: "events_get (events (new_ECS ([]::(nat \<times> jsval) list))) ''tock'' \<noteq> Inherited"
    by (simp add: eval_defs)
  have s: "subscribers (new_ECS ([]::(nat \<times> jsval) list)) ''tock'' = []"
    "env (new_ECS ([]::(nat \<times> jsval) list)) = []"
    by (simp_all add: subscribers_def new_ECS_def)
  have n: "fst (forEach [logger 0, logger 1, logger 2] (Num 7) []) = None"
    by (simp add: logger_def)
  have p: "forEach [logger 3] (Num 7) [] = (None, [(3, Num 7)])"
    "thrower (Str ''bang'') (Num 7) [(3::nat, Num 7)] =
       (Some (Thrown (Str ''bang'')), [(3::nat, Num 7)])"
    by (simp_all add: logger_def thrower_def)
  note A = emit_dispatch [OF a, where cbs = "[logger 0, logger 1, logger 2]" and d = "Num 7",
      THEN conjunct1]
  note B = emit_dispatch [OF a, where cbs = "[logger 3, thrower (Str ''bang''), logger 4]"
      and d = "Num 7" and pre = "[logger 3]" and h = "thrower (Str ''bang'')"
      and post = "[logger 4]" and ?w1.0 = "[(3, Num 7)]" and e = "Thrown (Str ''bang'')"
      and ?w2.0 = "[(3, Num 7)]", THEN conjunct2]
  have "fst (forEach (subscribers (new_ECS []) ''tock'' @ [logger 0, logger 1, logger 2])
               (Num 7) (env (new_ECS []))) = None"
    using n by (simp add: s)
  with A have "emit ''tock'' (Num 7)
        (subscribe ''tock'' [logger 0, logger 1, logger 2] (new_ECS [])) =
     (None, (subscribe ''tock'' [logger 0, logger 1, logger 2] (new_ECS []))
              \<lparr>env := foldl (\<lambda>w h. snd (h (Num 7) w)) (env (new_ECS []))
                        (subscribers (new_ECS []) ''tock'' @ [logger 0, logger 1, logger 2])\<rparr>)"
    by blast
  then have r1: "emit ''tock'' (Num 7)
        (subscribe ''tock'' [logger 0, logger 1, logger 2] (new_ECS [])) =
     (None, (subscribe ''tock'' [logger 0, logger 1, logger 2] (new_ECS []))
              \<lparr>env := [(0, Num 7), (1, Num 7), (2, Num 7)]\<rparr>)"
    by (simp add: s logger_def)
  have q: "subscribers (new_ECS []) ''tock'' @ [logger 3, thrower (Str ''bang''), logger 4]
             = [logger 3] @ thrower (Str ''bang'') # [logger 4]"
    "forEach [logger 3] (Num 7) (env (new_ECS [])) = (None, [(3, Num 7)])"
    using p(1) by (simp_all add: s)
  have r2: "emit ''tock'' (Num 7)
       (subscribe ''tock'' [logger 3, thrower (Str ''bang''), logger 4] (new_ECS [])) =
     (Some (Thrown (Str ''bang'')),
      (subscribe ''tock'' [logger 3, thrower (Str ''bang''), logger 4] (new_ECS []))
        \<lparr>env := [(3, Num 7)]\<rparr>)"
    using B q p(2) by blast
  show ?thesis
    using a s(1) n p r1 r2 by simp
qed

section \<open>Views and the bags they share\<close>

lemma emit_env_only: "snd (emit m d s) = s\<lparr>env := env (snd (emit m d s))\<rparr>"
  by (simp add: emit_def split: property.splits prod.splits)

lemma env_only_trans:
  "t = s\<lparr>env := a\<rparr> \<Longrightarrow> u = t\<lparr>env := b\<rparr> \<Longrightarrow> u = s\<lparr>env := b\<rparr>"
  by simp

lemma changeResolved_all_env_only:
  "snd (changeResolved_all vs s) = s\<lparr>env := env (snd (changeResolved_all vs s))\<rparr>"
proof (induction vs arbitrary: s)
  case Nil
  show ?case by simp
next
  case (Cons v vs)
  obtain e t where et: "emit ''changeResolved'' Undefined s = (e, t)"
    by (cases "emit ''changeResolved'' Undefined s")
  have t: "t = s\<lparr>env := env t\<rparr>"
    using emit_env_only[of "''changeResolved''" Undefined s] et by simp
  show ?case
  proof (cases e)
    case None
    have "snd (changeResolved_all vs t) = s\<lparr>env := env (snd (changeResolved_all vs t))\<rparr>"
      using env_only_trans[OF t Cons.IH[of t]] .
    then show ?thesis using et None by simp
  next
    case (Some x)
    then show ?thesis using et t by simp
  qed
qed

lemma changeResolved_all_fields:
  "debug (snd (changeResolved_all vs s)) = debug s"
  "all (snd (changeResolved_all vs s)) = all s"
  "lastId (snd (changeResolved_all vs s)) = lastId s"
  "events (snd (changeResolved_all vs s)) = events s"
  "entities (snd (changeResolved_all vs s)) = entities s"
  "priv_emitChanges (snd (changeResolved_all vs s)) = priv_emitChanges s"
  "heap (snd (changeResolved_all vs s)) = heap s"
  "registry (snd (changeResolved_all vs s)) = registry s"
proof -
  obtain w where "snd (changeResolved_all vs s) = s\<lparr>env := w\<rparr>"
    using changeResolved_all_env_only[of vs s] by simp
  then show
    "debug (snd (changeResolved_all vs s)) = debug s"
    "all (snd (changeResolved_all vs s)) = all s"
    "lastId (snd (changeResolved_all vs s)) = lastId s"
    "events (snd (changeResolved_all vs s)) = events s"
    "entities (snd (changeResolved_all vs s)) = entities s"
    "priv_emitChanges (snd (changeResolved_all vs s)) = priv_emitChanges s"
    "heap (snd (changeResolved_all vs s)) = heap s"
    "registry (snd (changeResolved_all vs s)) = registry s"
    by simp_all
qed

lemma handle_write_snd:
  "snd (handle_write h n x s) =
     (let s1 = s\<lparr>heap := heap_put (heap s) (h_bag h) n x\<rparr>
      in if debug s
         then (case emit ''changeDetected'' Undefined s1 of
                 (Some e, s2) \<Rightarrow> s2
               | (None, s2) \<Rightarrow> snd (changeResolved_all (qualifying s (h_id h)) s2))
         else s1)"
  using emit_fields(8)[of "''changeDetected''" Undefined
      "s\<lparr>heap := heap_put (heap s) (h_bag h) n x\<rparr>"]
  by (auto simp: handle_write_def qualifying_def Let_def split: prod.splits option.splits)

lemma handle_write_fields:
  "debug (snd (handle_write h n x s)) = debug s"
  "all (snd (handle_write h n x s)) = all s"
  "lastId (snd (handle_write h n x s)) = lastId s"
  "events (snd (handle_write h n x s)) = events s"
  "entities (snd (handle_write h n x s)) = entities s"
  "priv_emitChanges (snd (handle_write h n x s)) = priv_emitChanges s"
  "heap (snd (handle_write h n x s)) = heap_put (heap s) (h_bag h) n x"
  "registry (snd (handle_write h n x s)) = registry s"
proof -
  let ?s1 = "s\<lparr>heap := heap_put (heap s) (h_bag h) n x\<rparr>"
  obtain e t where et: "emit ''changeDetected'' Undefined ?s1 = (e, t)"
    by (cases "emit ''changeDetected'' Undefined ?s1")
  have t: "debug t = debug s" "all t = all s" "lastId t = lastId s" "events t = events s"
    "entities t = entities s" "priv_emitChanges t = priv_emitChanges s"
    "heap t = heap_put (heap s) (h_bag h) n x" "registry t = registry s"
    using emit_fields[of "''changeDetected''" Undefined ?s1] et by simp_all
  show
    "debug (snd (handle_write h n x s)) = debug s"
    "all (snd (handle_write h n x s)) = all s"
    "lastId (snd (handle_write h n x s)) = lastId s"
    "events (snd (handle_write h n x s)) = events s"
    "entities (snd (handle_write h n x s)) = entities s"
    "priv_emitChanges (snd (handle_write h n x s)) = priv_emitChanges s"
    "heap (snd (handle_write h n x s)) = heap_put (heap s) (h_bag h) n x"
    "registry (snd (handle_write h n x s)) = registry s"
    using et t by (cases e; simp add: handle_write_snd Let_def changeResolved_all_fields)+
qed


lemma bind_handles_bound:
  "bind_handles es ids = Some hs \<Longrightarrow>
   map h_id hs = ids \<and> (\<forall>h \<in> set hs. array_get es (h_id h) = Some (h_bag h))"
  by (induction ids arbitrary: hs) (auto split: option.splits)

lemma bind_handles_total:
  "\<forall>i \<in> set ids. array_get es i \<noteq> None \<Longrightarrow> \<exists>hs. bind_handles es ids = Some hs"
  by (induction ids) auto

lemma flowGroup_get_fields:
  "debug (snd (flowGroup_get g name s)) = debug s"
  "all (snd (flowGroup_get g name s)) = all s"
  "lastId (snd (flowGroup_get g name s)) = lastId s"
  "events (snd (flowGroup_get g name s)) = events s"
  "entities (snd (flowGroup_get g name s)) = entities s"
  "priv_emitChanges (snd (flowGroup_get g name s)) = priv_emitChanges s"
  "heap (snd (flowGroup_get g name s)) = heap s"
  "env (snd (flowGroup_get g name s)) = env s"
  by (simp_all add: flowGroup_get_def Let_def split: option.splits)

lemma heap_put_length: "length (heap_put hp r n x) = length hp"
  by (simp add: heap_put_def)

lemma bound_addEntity: "bound s \<Longrightarrow> bound (snd (addEntity r s))"
proof -
  assume b: "bound s"
  let ?es = "array_set (entities s) (lastId s) (length (heap s))"
  have len: "length (entities s) \<le> lastId s"
    using b by (simp add: bound_def)
  have 1: "length ?es \<le> lastId s + 1"
    using len by (simp add: array_set_def)
  have 2: "\<forall>i a. array_get ?es i = Some a \<longrightarrow> a < length (heap s @ [Map.empty])"
    using b by (auto simp: bound_def array_get_set less_Suc_eq)
  have 3: "\<forall>v \<in> set (registry s). \<forall>h \<in> set (tracked v).
             array_get ?es (h_id h) = Some (h_bag h)"
  proof (intro ballI)
    fix v h
    assume "v \<in> set (registry s)" "h \<in> set (tracked v)"
    then have g: "array_get (entities s) (h_id h) = Some (h_bag h)"
      using b by (simp add: bound_def)
    then have "h_id h < length (entities s)"
      by (simp add: array_get_def split: if_splits)
    then have "h_id h \<noteq> lastId s"
      using len by simp
    then show "array_get ?es (h_id h) = Some (h_bag h)"
      using g by (simp add: array_get_set)
  qed
  show ?thesis
    unfolding bound_def addEntity_fields using 1 2 3 by simp
qed

lemma set_emitChanges_fields:
  "debug (snd (set_emitChanges b s)) = debug s"
  "all (snd (set_emitChanges b s)) = all s"
  "lastId (snd (set_emitChanges b s)) = lastId s"
  "events (snd (set_emitChanges b s)) = events s"
  "entities (snd (set_emitChanges b s)) = entities s"
  "priv_emitChanges (snd (set_emitChanges b s)) = b"
  "heap (snd (set_emitChanges b s)) = heap s"
  "registry (snd (set_emitChanges b s)) = registry s"
  by (simp_all add: set_emitChanges_def Let_def emit_fields)

lemma bound_flowGroup_get: "bound s \<Longrightarrow> bound (snd (flowGroup_get g name s))"
  by (auto simp: bound_def flowGroup_get_def Let_def split: option.splits
      dest: bind_handles_bound)

lemma store_set_fields:
  "debug (snd (store_set i n x s)) = debug s"
  "all (snd (store_set i n x s)) = all s"
  "lastId (snd (store_set i n x s)) = lastId s"
  "events (snd (store_set i n x s)) = events s"
  "entities (snd (store_set i n x s)) = entities s"
  "priv_emitChanges (snd (store_set i n x s)) = priv_emitChanges s"
  "env (snd (store_set i n x s)) = env s"
  "registry (snd (store_set i n x s)) = registry s"
  "length (heap (snd (store_set i n x s))) = length (heap s)"
  by (simp_all add: store_set_def object_set_def proto_setter_def heap_put_length
      split: option.splits jsval.splits)

lemma bound_exec: "bound s \<Longrightarrow> bound (exec c s)"
proof (cases c)
  case (AddEntity flag)
  assume "bound s"
  then show ?thesis using AddEntity by (simp add: bound_addEntity)
next
  case (On m cb)
  assume "bound s"
  then show ?thesis using On
    by (simp add: bound_def on_def split: property.splits)
next
  case (Emit m d)
  assume "bound s"
  then show ?thesis using Emit by (simp add: bound_def emit_fields)
next
  case (SetEmitChanges b)
  assume "bound s"
  then show ?thesis using SetEmitChanges
    by (simp add: bound_def set_emitChanges_fields)
next
  case (SetDebug b)
  assume "bound s"
  then show ?thesis using SetDebug by (simp add: bound_def)
next
  case (Get g name)
  assume "bound s"
  then show ?thesis using Get by (simp add: bound_flowGroup_get)
next
  case (Write i j n x)
  assume "bound s"
  then show ?thesis using Write
    by (simp add: bound_def handle_write_fields heap_put_length)
next
  case (StoreSet i n x)
  assume "bound s"
  then show ?thesis using StoreSet
    by (simp add: bound_def store_set_fields)
next
  case (NewObject ob)
  assume "bound s"
  then show ?thesis using NewObject
    by (auto simp: bound_def heap_alloc_def less_Suc_eq)
qed

lemma bound_run: "bound s \<Longrightarrow> bound (run cs s)"
proof (induction cs arbitrary: s)
  case Nil
  then show ?case by (simp add: run_def)
next
  case (Cons c cs)
  have "bound (run cs (exec c s))"
    using Cons.IH[OF bound_exec[OF Cons.prems]] .
  then show ?case by (simp add: run_def)
qed

lemma bound_new_ECS: "bound (new_ECS w)"
  by (simp add: bound_def new_ECS_def array_get_def)

lemma handle_read_write:
  "h_bag h2 = h_bag h1 \<Longrightarrow> h_bag h1 < length (heap s) \<Longrightarrow>
   handle_read h2 n (snd (handle_write h1 n x s)) = Some x"
  by (simp add: handle_read_def handle_write_fields heap_get_def heap_put_def)

text \<open>
  Claim C1. In every state a store reaches from a new one by entity additions,
  subscriptions, emissions, toggles, selections, writes through handles, writes to bags and
  allocations, two registered views that each have a handle for the same entity id hold
  the same bag in those handles; so a property written through either handle is read back,
  with the new value, through the other and through itself, in the state the write leaves,
  with no step in between.
\<close>

theorem views_share_bags:
  assumes "s = run cs (new_ECS w)"
    and "v1 \<in> set (registry s)" and "v2 \<in> set (registry s)"
    and "h1 \<in> set (tracked v1)" and "h2 \<in> set (tracked v2)"
    and "h_id h1 = h_id h2"
  shows "h_bag h1 = h_bag h2 \<and>
         handle_read h2 n (snd (handle_write h1 n x s)) = Some x \<and>
         handle_read h1 n (snd (handle_write h1 n x s)) = Some x \<and>
         handle_read h1 n (snd (handle_write h2 n x s)) = Some x"
proof -
  have b: "bound s"
    using assms(1) bound_run[OF bound_new_ECS] by simp
  have e1: "array_get (entities s) (h_id h1) = Some (h_bag h1)"
    and e2: "array_get (entities s) (h_id h2) = Some (h_bag h2)"
    using b assms(2-5) by (auto simp: bound_def)
  then have same: "h_bag h1 = h_bag h2"
    using assms(6) by simp
  have "h_bag h1 < length (heap s)"
    using b e1 by (auto simp: bound_def)
  then show ?thesis
    using same by (simp add: handle_read_write)
qed


lemmas run_defs =
  run_def new_ECS_def addEntity_snd Let_def emit_def events_get_def
  object_prototype_names_def array_set_def array_get_def store_set_def object_set_def
  proto_setter_def heap_put_def
  heap_get_def heap_alloc_def flowGroup_get_def has_component_def object_keys_def
  on_def set_emitChanges_def handle_write_snd view_ids_def qualifying_def handle_read_def
  upt_rec

lemma sync_registry:
  "registry (run sync_example (new_ECS ())) =
     [\<lparr>v_scope = Universe, watched = Some ''testComponent'', tracked = [\<lparr>h_id = 0, h_bag = 0\<rparr>]\<rparr>,
      \<lparr>v_scope = SingleId 0, watched = None, tracked = [\<lparr>h_id = 0, h_bag = 0\<rparr>]\<rparr>]"
  by (simp add: sync_example_def run_defs)

theorem views_share_bags_witness:
  "\<lparr>v_scope = Universe, watched = Some ''testComponent'', tracked = [\<lparr>h_id = 0, h_bag = 0\<rparr>]\<rparr>
     \<in> set (registry (run sync_example (new_ECS ()))) \<and>
   \<lparr>v_scope = SingleId 0, watched = None, tracked = [\<lparr>h_id = 0, h_bag = 0\<rparr>]\<rparr>
     \<in> set (registry (run sync_example (new_ECS ()))) \<and>
   handle_read \<lparr>h_id = 0, h_bag = 0\<rparr> ''testComponent'' (run sync_example (new_ECS ()))
     = Some (Num 1) \<and>
   handle_read \<lparr>h_id = 0, h_bag = 0\<rparr> ''testComponent''
     (snd (handle_write \<lparr>h_id = 0, h_bag = 0\<rparr> ''testComponent'' (Num 5)
        (run sync_example (new_ECS ())))) = Some (Num 5)"
proof -
  let ?s = "run sync_example (new_ECS ())"
  let ?h = "\<lparr>h_id = 0, h_bag = 0\<rparr>"
  let ?v1 = "\<lparr>v_scope = Universe, watched = Some ''testComponent'', tracked = [?h]\<rparr>"
  let ?v2 = "\<lparr>v_scope = SingleId 0, watched = None, tracked = [?h]\<rparr>"
  have m1: "?v1 \<in> set (registry ?s)" and m2: "?v2 \<in> set (registry ?s)"
    by (simp_all add: sync_registry)
  have m3: "?h \<in> set (tracked ?v1)" and m4: "?h \<in> set (tracked ?v2)"
    by simp_all
  have r: "handle_read ?h ''testComponent'' ?s = Some (Num 1)"
    by (simp add: sync_example_def run_defs)
  show ?thesis
    using m1 m2 r views_share_bags [OF refl m1 m2 m3 m4 refl, of "''testComponent''" "Num 5"]
    by simp
qed

section \<open>Selection\<close>

lemma has_component_known:
  "has_component s i N \<Longrightarrow> i \<in> set (object_keys (entities s))"
  by (auto simp: has_component_def object_keys_def array_get_def split: option.splits if_splits)

lemma object_keys_known:
  "i \<in> set (object_keys es) \<Longrightarrow> array_get es i \<noteq> None"
  by (simp add: object_keys_def array_get_def)

lemma sorted_object_keys: "sorted_wrt (<) (object_keys es)"
  by (simp add: object_keys_def sorted_wrt_filter)

text \<open>
  Claim C3. A selection over the whole store with component name \<open>N\<close> always yields a
  view, registered last; the ids of its handles are exactly the ids whose bag has a
  property \<open>N\<close> at the call, in ascending order, so none at all when no entity has
  \<open>N\<close>; and giving \<open>N\<close> to any entity afterwards leaves the registered view, and with
  it its tracked handles, as it was.
\<close>

theorem universe_selection:
  "\<exists>v. flowGroup_get Universe (Some N) s = (Some v, s\<lparr>registry := registry s @ [v]\<rparr>) \<and>
       set (view_ids v) = {i. has_component s i N} \<and>
       sorted_wrt (<) (view_ids v) \<and>
       ((\<forall>i. \<not> has_component s i N) \<longrightarrow> tracked v = []) \<and>
       registry (snd (store_set j N x (snd (flowGroup_get Universe (Some N) s))))
         = registry s @ [v]"
proof -
  let ?ids = "resolve Universe (Some N) s"
  have "\<forall>i \<in> set ?ids. array_get (entities s) i \<noteq> None"
    by (simp add: object_keys_known)
  then obtain hs where hs: "bind_handles (entities s) ?ids = Some hs"
    using bind_handles_total by blast
  let ?v = "\<lparr>v_scope = Universe, watched = Some N, tracked = hs\<rparr>"
  have ids: "view_ids ?v = ?ids"
    using bind_handles_bound[OF hs] by (simp add: view_ids_def)
  have g: "flowGroup_get Universe (Some N) s = (Some ?v, s\<lparr>registry := registry s @ [?v]\<rparr>)"
    using hs by (simp add: flowGroup_get_def Let_def)
  have 1: "set (view_ids ?v) = {i. has_component s i N}"
    unfolding ids using has_component_known by auto
  have 2: "sorted_wrt (<) (view_ids ?v)"
    unfolding ids by (simp add: sorted_wrt_filter sorted_object_keys)
  have 3: "(\<forall>i. \<not> has_component s i N) \<longrightarrow> tracked ?v = []"
  proof
    assume "\<forall>i. \<not> has_component s i N"
    then have "map h_id hs = []"
      using ids by (simp add: view_ids_def)
    then show "tracked ?v = []" by simp
  qed
  have 4: "registry (snd (store_set j N x (snd (flowGroup_get Universe (Some N) s))))
         = registry s @ [?v]"
    by (simp add: store_set_fields g)
  show ?thesis
    using g 1 2 3 4 by blast
qed

theorem universe_selection_witness:
  "fst (flowGroup_get Universe (Some ''tag'') tag_example) =
     Some \<lparr>v_scope = Universe, watched = Some ''tag'',
            tracked = [\<lparr>h_id = 1, h_bag = 1\<rparr>, \<lparr>h_id = 3, h_bag = 3\<rparr>]\<rparr> \<and>
   (\<forall>i. \<not> has_component tag_example i ''non-existing'') \<and>
   fst (flowGroup_get Universe (Some ''non-existing'') tag_example) =
     Some \<lparr>v_scope = Universe, watched = Some ''non-existing'', tracked = []\<rparr> \<and>
   registry (snd (store_set 4 ''tag'' (Bool True)
               (snd (flowGroup_get Universe (Some ''tag'') tag_example)))) =
     [\<lparr>v_scope = Universe, watched = Some ''tag'',
       tracked = [\<lparr>h_id = 1, h_bag = 1\<rparr>, \<lparr>h_id = 3, h_bag = 3\<rparr>]\<rparr>] \<and>
   resolve Universe (Some ''tag'')
     (snd (store_set 4 ''tag'' (Bool True)
        (snd (flowGroup_get Universe (Some ''tag'') tag_example)))) = [1, 3, 4]"
proof -
  have e: "fst (flowGroup_get Universe (Some ''non-existing'') tag_example) =
     Some \<lparr>v_scope = Universe, watched = Some ''non-existing'', tracked = []\<rparr>"
    by (simp add: tag_example_def run_defs)
  obtain v where v: "fst (flowGroup_get Universe (Some ''non-existing'') tag_example) = Some v"
    "set (view_ids v) = {i. has_component tag_example i ''non-existing''}"
    using universe_selection [of "''non-existing''" tag_example 4 "Bool True"] by fastforce
  have "v = \<lparr>v_scope = Universe, watched = Some ''non-existing'', tracked = []\<rparr>"
    using v(1) e by simp
  then have "view_ids v = []"
    by (simp add: view_ids_def)
  then have n: "\<forall>i. \<not> has_component tag_example i ''non-existing''"
    using v(2) by simp
  show ?thesis
    using n e universe_selection [of "''tag''" tag_example 4 "Bool True"]
    by (simp add: tag_example_def run_defs)
qed

text \<open>
  Claim C4, as stated, fails in its last part: the bag of an entity is a plain object
  \<^verbatim>\<open>{ }\<close>, and assigning a number to its \<^verbatim>\<open>__proto__\<close> runs the setter inherited from
  \<^verbatim>\<open>Object.prototype\<close>, which drops the number. The assignment returns normally, the bag
  has no such property afterwards, and the view's handle does not read the number back.
\<close>

theorem single_id_read_back_counterexample:
  "registry proto_key_example =
     [\<lparr>v_scope = SingleId 0, watched = Some ''__proto__'',
       tracked = [\<lparr>h_id = 0, h_bag = 0\<rparr>]\<rparr>] \<and>
   fst (store_set 0 ''__proto__'' (Num 3) proto_key_example) = None \<and>
   handle_read \<lparr>h_id = 0, h_bag = 0\<rparr> ''__proto__''
     (snd (store_set 0 ''__proto__'' (Num 3) proto_key_example)) = None"
  by (simp add: proto_key_example_def run_defs)

text \<open>
  Claim C4, amended. A selection scoped to the single id \<open>i\<close> resolves to \<open>[i]\<close> whatever
  component name comes with it; for an entity \<open>i\<close> the view has exactly one handle, bound
  to that entity's bag, whether or not the bag has the named component; and a component
  of any name other than \<^verbatim>\<open>__proto__\<close>, assigned to the entity's bag in a later state,
  reads back through that handle with the value assigned.
\<close>

theorem single_id_selection:
  "resolve (SingleId i) name s = [i] \<and>
   (array_get (entities s) i = Some r \<longrightarrow>
      flowGroup_get (SingleId i) name s =
        (Some \<lparr>v_scope = SingleId i, watched = name, tracked = [\<lparr>h_id = i, h_bag = r\<rparr>]\<rparr>,
         s\<lparr>registry := registry s @
              [\<lparr>v_scope = SingleId i, watched = name, tracked = [\<lparr>h_id = i, h_bag = r\<rparr>]\<rparr>]\<rparr>)) \<and>
   (N \<noteq> ''__proto__'' \<longrightarrow> array_get (entities t) i = Some r \<longrightarrow> r < length (heap t) \<longrightarrow>
      handle_read \<lparr>h_id = i, h_bag = r\<rparr> N (snd (store_set i N x t)) = Some x)"
  by (simp add: flowGroup_get_def Let_def store_set_def object_set_def handle_read_def
      heap_get_def heap_put_def)

theorem single_id_selection_witness:
  "array_get (entities (run [AddEntity True] (new_ECS ()))) 0 = Some 0 \<and>
   ''pos'' \<noteq> ''__proto__'' \<and>
   \<not> has_component (run [AddEntity True] (new_ECS ())) 0 ''pos'' \<and>
   flowGroup_get (SingleId 0) (Some ''pos'') (run [AddEntity True] (new_ECS ())) =
     (Some \<lparr>v_scope = SingleId 0, watched = Some ''pos'', tracked = [\<lparr>h_id = 0, h_bag = 0\<rparr>]\<rparr>,
      (run [AddEntity True] (new_ECS ()))
        \<lparr>registry := [\<lparr>v_scope = SingleId 0, watched = Some ''pos'',
                       tracked = [\<lparr>h_id = 0, h_bag = 0\<rparr>]\<rparr>]\<rparr>) \<and>
   array_get (entities pos_example) 0 = Some 0 \<and> 0 < length (heap pos_example) \<and>
   handle_read \<lparr>h_id = 0, h_bag = 0\<rparr> ''pos'' (snd (store_set 0 ''pos'' (Ref 1) pos_example))
     = Some (Ref 1) \<and>
   map_option (\<lambda>ob. ob ''x'') (heap_get (heap (snd (store_set 0 ''pos'' (Ref 1) pos_example))) 1)
     = Some (Some (Num 3))"
  using single_id_selection [where i = 0 and name = "Some ''pos''"
      and s = "run [AddEntity True] (new_ECS ())" and r = 0 and N = "''pos''"
      and t = pos_example and x = "Ref 1"]
  by (simp add: pos_example_def run_defs)

section \<open>Writes through handles\<close>

lemma handle_write_no_debug:
  "\<not> debug s \<Longrightarrow>
   handle_write h n x s = (None, s\<lparr>heap := heap_put (heap s) (h_bag h) n x\<rparr>)"
  by (simp add: handle_write_def Let_def)

lemma handle_writes_no_debug:
  "\<not> debug s \<Longrightarrow>
   handle_writes ws s =
     (None, s\<lparr>heap := foldl (\<lambda>hp (h, n, x). heap_put hp (h_bag h) n x) (heap s) ws\<rparr>)"
proof (induction ws arbitrary: s)
  case Nil
  then show ?case by simp
next
  case (Cons a ws)
  obtain h n x where a: "a = (h, n, x)"
    by (cases a)
  let ?t = "s\<lparr>heap := heap_put (heap s) (h_bag h) n x\<rparr>"
  have "\<not> debug ?t" using Cons.prems by simp
  from Cons.IH[OF this] show ?case
    using Cons.prems a by (simp add: handle_write_no_debug)
qed

text \<open>
  Claim C5. With the debug flag off, any sequence of writes through handles returns
  normally and leaves the state of the callbacks untouched, whatever is subscribed to
  \<^verbatim>\<open>changeDetected\<close> and \<^verbatim>\<open>changeResolved\<close>: no callback has run. Every write of the
  sequence has been applied to its bag, in order, and a value written through a handle is
  read back through every handle bound to the same bag.
\<close>

theorem writes_without_debug:
  "\<not> debug s \<Longrightarrow>
   fst (handle_writes ws s) = None \<and>
   env (snd (handle_writes ws s)) = env s \<and>
   heap (snd (handle_writes ws s)) =
     foldl (\<lambda>hp (h, n, x). heap_put hp (h_bag h) n x) (heap s) ws \<and>
   fst (handle_write h n x s) = None \<and>
   env (snd (handle_write h n x s)) = env s \<and>
   (h_bag h < length (heap s) \<longrightarrow> h_bag h' = h_bag h \<longrightarrow>
      handle_read h' n (snd (handle_write h n x s)) = Some x)"
  by (simp add: handle_writes_no_debug handle_write_no_debug handle_read_def heap_get_def
      heap_put_def)

theorem writes_without_debug_witness:
  "\<not> debug quiet_example \<and>
   subscribers quiet_example ''changeDetected'' = [logger 0] \<and>
   subscribers quiet_example ''changeResolved'' = [logger 1] \<and>
   registry quiet_example =
     [\<lparr>v_scope = SingleId 0, watched = Some ''testComponent'',
       tracked = [\<lparr>h_id = 0, h_bag = 0\<rparr>]\<rparr>] \<and>
   handle_read \<lparr>h_id = 0, h_bag = 0\<rparr> ''testComponent'' quiet_example = Some (Bool True) \<and>
   fst (handle_write \<lparr>h_id = 0, h_bag = 0\<rparr> ''testComponent'' (Bool False) quiet_example)
     = None \<and>
   env (snd (handle_write \<lparr>h_id = 0, h_bag = 0\<rparr> ''testComponent'' (Bool False) quiet_example))
     = [] \<and>
   handle_read \<lparr>h_id = 0, h_bag = 0\<rparr> ''testComponent''
     (snd (handle_write \<lparr>h_id = 0, h_bag = 0\<rparr> ''testComponent'' (Bool False) quiet_example))
     = Some (Bool False) \<and>
   env (snd (handle_writes
         [(\<lparr>h_id = 0, h_bag = 0\<rparr>, ''testComponent'', Bool False),
          (\<lparr>h_id = 0, h_bag = 0\<rparr>, ''testComponent'', Num 2)] quiet_example)) = []"
proof -
  have d: "\<not> debug quiet_example"
    by (simp add: quiet_example_def run_defs)
  have e: "env quiet_example = []"
    by (simp add: quiet_example_def run_defs)
  have l: "0 < length (heap quiet_example)"
    by (simp add: quiet_example_def run_defs)
  have rest: "subscribers quiet_example ''changeDetected'' = [logger 0]"
    "subscribers quiet_example ''changeResolved'' = [logger 1]"
    "registry quiet_example =
       [\<lparr>v_scope = SingleId 0, watched = Some ''testComponent'',
         tracked = [\<lparr>h_id = 0, h_bag = 0\<rparr>]\<rparr>]"
    "handle_read \<lparr>h_id = 0, h_bag = 0\<rparr> ''testComponent'' quiet_example = Some (Bool True)"
    by (simp_all add: quiet_example_def run_defs subscribers_def)
  show ?thesis
    using d e l rest
      writes_without_debug [OF d,
        of "[(\<lparr>h_id = 0, h_bag = 0\<rparr>, ''testComponent'', Bool False),
             (\<lparr>h_id = 0, h_bag = 0\<rparr>, ''testComponent'', Num 2)]"
           "\<lparr>h_id = 0, h_bag = 0\<rparr>" "''testComponent''" "Bool False" "\<lparr>h_id = 0, h_bag = 0\<rparr>"]
    by simp
qed

lemma debug_events_not_inherited:
  "events_get ev ''changeDetected'' \<noteq> Inherited"
  "events_get ev ''changeResolved'' \<noteq> Inherited"
  by (simp_all add: events_get_def object_prototype_names_def split: option.splits)

lemma emit_dispatch_state:
  "events_get (events s) m \<noteq> Inherited \<Longrightarrow>
   emit m Undefined s =
     (fst (forEach (subscribers s m) Undefined (env s)),
      s\<lparr>env := dispatch (subscribers s m) (env s)\<rparr>)"
  by (simp add: emit_subscribers dispatch_def)

lemma changeResolved_all_returns:
  "subscribers s ''changeResolved'' = R \<Longrightarrow> fst (changeResolved_all vs s) = None \<Longrightarrow>
   changeResolved_all vs s = (None, s\<lparr>env := (dispatch R ^^ length vs) (env s)\<rparr>)"
proof (induction vs arbitrary: s)
  case Nil
  then show ?case by simp
next
  case (Cons v vs)
  let ?t = "s\<lparr>env := dispatch R (env s)\<rparr>"
  have e: "emit ''changeResolved'' Undefined s =
      (fst (forEach R Undefined (env s)), ?t)"
    using emit_dispatch_state[OF debug_events_not_inherited(2), of s] Cons.prems(1) by simp
  show ?case
  proof (cases "fst (forEach R Undefined (env s))")
    case None
    have 1: "subscribers ?t ''changeResolved'' = R"
      using Cons.prems(1) by (simp add: subscribers_def)
    have 2: "fst (changeResolved_all vs ?t) = None"
      using Cons.prems(2) e None by simp
    from Cons.IH[OF 1 2] show ?thesis
      using e None by (simp add: funpow_Suc_right del: funpow.simps(2))
  next
    case (Some x)
    then show ?thesis
      using Cons.prems(2) e by simp
  qed
qed

lemma handle_write_returns:
  assumes "debug s" and "fst (handle_write h n x s) = None"
  shows "handle_write h n x s =
     (None, s\<lparr>heap := heap_put (heap s) (h_bag h) n x,
              env := (dispatch (subscribers s ''changeResolved'') ^^
                        length (qualifying s (h_id h)))
                     (dispatch (subscribers s ''changeDetected'') (env s))\<rparr>)"
proof -
  let ?D = "subscribers s ''changeDetected''" and ?R = "subscribers s ''changeResolved''"
  let ?s1 = "s\<lparr>heap := heap_put (heap s) (h_bag h) n x\<rparr>"
  let ?s2 = "?s1\<lparr>env := dispatch ?D (env s)\<rparr>"
  have sub1: "subscribers ?s1 ''changeDetected'' = ?D"
    by (simp add: subscribers_def)
  have e: "emit ''changeDetected'' Undefined ?s1 =
      (fst (forEach ?D Undefined (env s)), ?s2)"
    using emit_dispatch_state[OF debug_events_not_inherited(1), of ?s1] sub1 by simp
  have w: "handle_write h n x s =
      (case fst (forEach ?D Undefined (env s)) of
         Some e \<Rightarrow> (Some e, ?s2)
       | None \<Rightarrow> changeResolved_all (qualifying s (h_id h)) ?s2)"
    using assms(1) e
    by (simp add: handle_write_def Let_def qualifying_def split: option.splits)
  show ?thesis
  proof (cases "fst (forEach ?D Undefined (env s))")
    case None
    have sub2: "subscribers ?s2 ''changeResolved'' = ?R"
      by (simp add: subscribers_def)
    have "fst (changeResolved_all (qualifying s (h_id h)) ?s2) = None"
      using assms(2) w None by simp
    from changeResolved_all_returns[OF sub2 this] show ?thesis
      using w None by simp
  next
    case (Some x)
    then show ?thesis
      using assms(2) w by simp
  qed
qed

lemma handle_writes_returns:
  "debug s \<Longrightarrow> subscribers s ''changeDetected'' = D \<Longrightarrow>
   subscribers s ''changeResolved'' = R \<Longrightarrow>
   \<forall>a \<in> set ws. h_id (fst a) = E \<Longrightarrow>
   fst (handle_writes ws s) = None \<Longrightarrow>
   env (snd (handle_writes ws s)) =
     ((\<lambda>w. (dispatch R ^^ length (qualifying s E)) (dispatch D w)) ^^ length ws) (env s)"
proof (induction ws arbitrary: s)
  case Nil
  then show ?case by simp
next
  case (Cons a ws)
  obtain h n x where a: "a = (h, n, x)"
    by (cases a)
  have hE: "h_id h = E"
    using Cons.prems(4) a by simp
  let ?t = "s\<lparr>heap := heap_put (heap s) (h_bag h) n x,
              env := (dispatch R ^^ length (qualifying s E)) (dispatch D (env s))\<rparr>"
  have first: "fst (handle_write h n x s) = None"
    using Cons.prems(5) a by (cases "handle_write h n x s") (auto split: option.splits)
  have w: "handle_write h n x s = (None, ?t)"
    using handle_write_returns[OF Cons.prems(1) first] Cons.prems(2,3) hE by simp
  have t: "debug ?t" "subscribers ?t ''changeDetected'' = D"
    "subscribers ?t ''changeResolved'' = R" "\<forall>a \<in> set ws. h_id (fst a) = E"
    "fst (handle_writes ws ?t) = None"
    using Cons.prems a w by (simp_all add: subscribers_def)
  have k: "qualifying ?t E = qualifying s E"
    by (simp add: qualifying_def)
  from Cons.IH[OF t] show ?case
    using a w k by (simp add: funpow_Suc_right del: funpow.simps(2))
qed

lemma count_funpow:
  "\<forall>w. c (r w) = c w + b \<Longrightarrow> c ((r ^^ k) w) = c w + k * (b::nat)"
  by (induction k) simp_all

lemma count_rounds:
  "\<forall>w. c (d w) = c w + a \<Longrightarrow> \<forall>w. c (r w) = c w + b \<Longrightarrow>
   c (((\<lambda>w. (r ^^ k) (d w)) ^^ m) w0) = c w0 + m * (a + k * (b::nat))"
  by (induction m) (simp_all add: count_funpow algebra_simps)

text \<open>
  Claim C2, as stated, fails when a subscriber raises: the exception is not caught, so it
  ends the broadcast of that write. With the debug flag on, three qualifying views and a
  subscriber of \<^verbatim>\<open>changeResolved\<close> that throws, one write ends with the exception after
  one \<^verbatim>\<open>changeDetected\<close> and one \<^verbatim>\<open>changeResolved\<close>, not three.
\<close>

theorem debug_event_counts_counterexample:
  "debug throwing_example \<and>
   length (qualifying throwing_example 0) = 3 \<and>
   fst (handle_writes [(\<lparr>h_id = 0, h_bag = 0\<rparr>, ''testComponent'', Num 8)] throwing_example)
     = Some (Thrown (Str ''stop'')) \<and>
   count_tag 0 (env (snd (handle_writes
       [(\<lparr>h_id = 0, h_bag = 0\<rparr>, ''testComponent'', Num 8)] throwing_example))) = 1 \<and>
   count_tag 1 (env (snd (handle_writes
       [(\<lparr>h_id = 0, h_bag = 0\<rparr>, ''testComponent'', Num 8)] throwing_example))) = 1"
  by (simp add: throwing_example_def run_defs handle_write_def logger_def thrower_def
      count_tag_def)

text \<open>
  Claim C2, amended. With the debug flag on, \<open>k\<close> qualifying views (the registered views
  whose resolved ids contain entity \<open>E\<close>, be they all the registered views or not), and
  \<open>m\<close> writes through handles of \<open>E\<close> that return normally, no subscriber raising
  during them: the callbacks have seen, \<open>m\<close> times over, one dispatch of
  \<^verbatim>\<open>changeDetected\<close> followed by \<open>k\<close> dispatches of \<^verbatim>\<open>changeResolved\<close>. Hence an observer
  that counts the dispatches of \<^verbatim>\<open>changeDetected\<close> has counted exactly \<open>m\<close>, and one that
  counts the dispatches of \<^verbatim>\<open>changeResolved\<close> exactly \<open>m * k\<close>.
\<close>

theorem debug_event_counts:
  assumes "debug s"
    and "\<forall>a \<in> set ws. h_id (fst a) = E"
    and "fst (handle_writes ws s) = None"
  shows "env (snd (handle_writes ws s)) =
       ((\<lambda>w. (dispatch (subscribers s ''changeResolved'') ^^ length (qualifying s E))
               (dispatch (subscribers s ''changeDetected'') w)) ^^ length ws) (env s) \<and>
     ((\<forall>w. cD (dispatch (subscribers s ''changeDetected'') w) = cD w + 1) \<and>
      (\<forall>w. cD (dispatch (subscribers s ''changeResolved'') w) = cD w) \<longrightarrow>
        cD (env (snd (handle_writes ws s))) = cD (env s) + length ws) \<and>
     ((\<forall>w. cR (dispatch (subscribers s ''changeDetected'') w) = cR w) \<and>
      (\<forall>w. cR (dispatch (subscribers s ''changeResolved'') w) = cR w + 1) \<longrightarrow>
        cR (env (snd (handle_writes ws s))) =
          cR (env s) + length ws * length (qualifying s E))"
proof -
  let ?D = "subscribers s ''changeDetected''" and ?R = "subscribers s ''changeResolved''"
  have main: "env (snd (handle_writes ws s)) =
       ((\<lambda>w. (dispatch ?R ^^ length (qualifying s E)) (dispatch ?D w)) ^^ length ws) (env s)"
    using handle_writes_returns[OF assms(1) refl refl assms(2,3)] .
  have cd: "cD (env (snd (handle_writes ws s))) = cD (env s) + length ws"
    if "\<forall>w. cD (dispatch ?D w) = cD w + 1" "\<forall>w. cD (dispatch ?R w) = cD w"
    using count_rounds[where c = cD and d = "dispatch ?D" and a = 1 and r = "dispatch ?R"
          and b = 0 and k = "length (qualifying s E)" and m = "length ws" and ?w0.0 = "env s"]
      that main by simp
  have cr: "cR (env (snd (handle_writes ws s))) =
              cR (env s) + length ws * length (qualifying s E)"
    if "\<forall>w. cR (dispatch ?D w) = cR w" "\<forall>w. cR (dispatch ?R w) = cR w + 1"
    using count_rounds[where c = cR and d = "dispatch ?D" and a = 0 and r = "dispatch ?R"
          and b = 1 and k = "length (qualifying s E)" and m = "length ws" and ?w0.0 = "env s"]
      that main by simp
  show ?thesis
    using main cd cr by blast
qed

theorem debug_event_counts_witness:
  "debug debug_example \<and>
   subscribers debug_example ''changeDetected'' = [logger 0] \<and>
   subscribers debug_example ''changeResolved'' = [logger 1] \<and>
   map view_ids (registry debug_example) = [[0], [0], [0]] \<and>
   length (qualifying debug_example 0) = 3 \<and>
   env debug_example = [] \<and>
   fst (handle_writes
         [(\<lparr>h_id = 0, h_bag = 0\<rparr>, ''testComponent'', Num 8),
          (\<lparr>h_id = 0, h_bag = 0\<rparr>, ''testComponent'', Num 9)] debug_example) = None \<and>
   count_tag 0 (env (snd (handle_writes
         [(\<lparr>h_id = 0, h_bag = 0\<rparr>, ''testComponent'', Num 8),
          (\<lparr>h_id = 0, h_bag = 0\<rparr>, ''testComponent'', Num 9)] debug_example))) = 2 \<and>
   count_tag 1 (env (snd (handle_writes
         [(\<lparr>h_id = 0, h_bag = 0\<rparr>, ''testComponent'', Num 8),
          (\<lparr>h_id = 0, h_bag = 0\<rparr>, ''testComponent'', Num 9)] debug_example))) = 2 * 3"
proof -
  let ?W = "[(\<lparr>h_id = 0, h_bag = 0\<rparr>, ''testComponent'', Num 8),
             (\<lparr>h_id = 0, h_bag = 0\<rparr>, ''testComponent'', Num 9)]"
  have d: "debug debug_example"
    by (simp add: debug_example_def run_defs)
  have sD: "subscribers debug_example ''changeDetected'' = [logger 0]"
    and sR: "subscribers debug_example ''changeResolved'' = [logger 1]"
    by (simp_all add: debug_example_def run_defs subscribers_def)
  have reg: "map view_ids (registry debug_example) = [[0], [0], [0]]"
    by (simp add: debug_example_def run_defs)
  have k: "length (qualifying debug_example 0) = 3"
    by (simp add: debug_example_def run_defs)
  have ws: "\<forall>a \<in> set ?W. h_id (fst a) = 0"
    by simp
  have e: "env debug_example = []"
    by (simp add: debug_example_def run_defs)
  have r1: "fst (handle_writes ?W debug_example) = None"
    by (simp add: debug_example_def run_defs handle_write_def logger_def)
  have c: "\<forall>w. count_tag 0 (dispatch (subscribers debug_example ''changeDetected'') w)
                = count_tag 0 w + 1"
    "\<forall>w. count_tag 0 (dispatch (subscribers debug_example ''changeResolved'') w) = count_tag 0 w"
    "\<forall>w. count_tag 1 (dispatch (subscribers debug_example ''changeDetected'') w) = count_tag 1 w"
    "\<forall>w. count_tag 1 (dispatch (subscribers debug_example ''changeResolved'') w)
                = count_tag 1 w + 1"
    by (simp_all add: sD sR dispatch_def logger_def count_tag_def)
  have z: "count_tag 0 [] = 0" "count_tag 1 [] = 0"
    by (simp_all add: count_tag_def)
  note T = debug_event_counts [OF d ws r1, of "count_tag 0" "count_tag 1"]
  have r2: "count_tag 0 (env (snd (handle_writes ?W debug_example)))
              = count_tag 0 (env debug_example) + length ?W"
    using T c(1,2) by blast
  have r3: "count_tag 1 (env (snd (handle_writes ?W debug_example)))
              = count_tag 1 (env debug_example) + length ?W * length (qualifying debug_example 0)"
    using T c(3,4) by blast
  show ?thesis
    using d sD sR reg e r1 r2 r3 z k
    by (simp del: handle_writes.simps)
qed

end
